theory Spec2Isabelle
  imports
    Main
    "HOL-Library.FSet"
    "HOL-Library.Char_ord"
    "HOL-Library.List_Lexorder"
    "HOL-Library.Option_ord"
begin

section \<open>Barcode-aware read counting (count\_with\_barcodes.py)\<close>

text \<open>
  A shallow embedding of \<^verbatim>\<open>count_reads_with_barcodes\<close> and its nested helper
  \<^verbatim>\<open>identify_barcodes\<close>. Python exceptions are values of \<open>error\<close>, the nested
  \<^verbatim>\<open>defaultdict\<close>/\<^verbatim>\<open>Counter\<close> table is an association list in insertion order
  (Python dictionaries iterate in insertion order, and the collapse pass depends on it),
  and the loop over the alignment stream is a recursion over a list of record units.
  Reading and pairing the alignments, the feature index and the annotated SAM output
  (\<^verbatim>\<open>write_to_samout\<close>, which does not touch the counts) are outside the embedding.
\<close>

subsection \<open>Exceptions\<close>

datatype error =
    ValueError string
  | KeyError
  | IndexError
  | TypeError
  | UnknownChrom
  | SystemExit string

subsection \<open>Data model\<close>

text \<open>
  \<^verbatim>\<open>HTSeq.GenomicInterval\<close>: the strand is a Python string; \<^verbatim>\<open>invert_strand\<close>
  accepts \<^verbatim>\<open>"+"\<close> and \<^verbatim>\<open>"-"\<close> only.
\<close>

record genomic_interval =
  chrom :: string
  iv_start :: int
  iv_end :: int
  strand :: string

text \<open>\<^verbatim>\<open>HTSeq.CigarOperation\<close>: the fields the counting loop reads.\<close>

record cigar_op =
  co_type :: string
  co_size :: int
  ref_iv :: genomic_interval

text \<open>
  \<^verbatim>\<open>HTSeq.SAM_Alignment\<close>: the attributes the counting loop reads. The tag list
  \<open>optional_fields\<close> holds (tag, value) pairs in file order.
\<close>

text \<open>
  Modelled from the spec: the method \<^verbatim>\<open>SAM_Alignment.optional_field\<close> is not part of the
  source file; the data model gives an alignment record an "optional multimapping count
  (NH)". The field \<open>NH\<close> is the value of \<^verbatim>\<open>r.optional_field("NH")\<close>, and \<open>None\<close> stands
  for the call raising \<^verbatim>\<open>KeyError\<close>.
\<close>

record sam_alignment =
  aligned :: bool
  not_primary_alignment :: bool
  supplementary :: bool
  aQual :: int
  cigar :: "cigar_op list"
  optional_fields :: "(string \<times> string) list"
  NH :: "int option"

text \<open>
  One element of \<^verbatim>\<open>read_seq\<close>: a single alignment when \<^verbatim>\<open>pe_mode\<close> is false, a pair of
  optional mates when it is true. The constructor plays the role of \<^verbatim>\<open>pe_mode\<close>.
\<close>

datatype record_unit =
    Single sam_alignment
  | Pair "sam_alignment option" "sam_alignment option"

text \<open>The parameters of \<^verbatim>\<open>count_reads_with_barcodes\<close> that the loop body reads.\<close>

record config =
  stranded :: string
  overlap_mode :: string
  multimapped_mode :: string
  secondary_alignment_mode :: string
  supplementary_alignment_mode :: string
  minaqual :: int
  cb_tag :: string
  ub_tag :: string

text \<open>
  The feature index (\<^verbatim>\<open>HTSeq.GenomicArrayOfSets\<close>), consumed through two operations:
  \<open>chrom_vectors\<close> is the set of known chromosomes and \<open>steps F iv\<close> is
  \<^verbatim>\<open>features[iv].steps()\<close>, the list of (sub-interval, feature set) pairs covering \<open>iv\<close>.
\<close>

record feature_index =
  chrom_vectors :: "string set"
  steps :: "genomic_interval \<Rightarrow> (genomic_interval \<times> string fset) list"

subsection \<open>invert\_strand\<close>

definition invert_strand :: "genomic_interval \<Rightarrow> error + genomic_interval" where
  "invert_strand iv =
     (if strand iv = ''+'' then Inr (iv\<lparr>strand := ''-''\<rparr>)
      else if strand iv = ''-'' then Inr (iv\<lparr>strand := ''+''\<rparr>)
      else Inl (ValueError ''Illegal strand''))"

subsection \<open>identify\_barcodes\<close>

text \<open>
  The loop state is \<^verbatim>\<open>(barcodes[0], barcodes[1], nbar)\<close>. The inner loop over the tags of
  one read either returns from the function (\<open>Returned\<close>) or runs to its end (\<open>Fell_through\<close>).
\<close>

type_synonym bar_state = "string option \<times> string option \<times> nat"

datatype 'a flow = Returned 'a | Fell_through 'a

fun scan_tags :: "string \<Rightarrow> string \<Rightarrow> (string \<times> string) list \<Rightarrow> bar_state \<Rightarrow> bar_state flow" where
  "scan_tags cbt ubt [] st = Fell_through st"
| "scan_tags cbt ubt ((tag, val) # rest) (c, u, nbar) =
     (if tag = cbt then
        (if nbar + 1 = 2 then Returned (Some val, u, nbar + 1)
         else scan_tags cbt ubt rest (Some val, u, nbar + 1))
      else if tag = ubt then
        (if nbar + 1 = 2 then Returned (c, Some val, nbar + 1)
         else scan_tags cbt ubt rest (c, Some val, nbar + 1))
      else scan_tags cbt ubt rest (c, u, nbar))"

fun scan_reads :: "string \<Rightarrow> string \<Rightarrow> sam_alignment option list \<Rightarrow> bar_state \<Rightarrow> bar_state" where
  "scan_reads cbt ubt [] st = st"
| "scan_reads cbt ubt (None # reads) st = scan_reads cbt ubt reads st"
| "scan_reads cbt ubt (Some read # reads) st =
     (case scan_tags cbt ubt (optional_fields read) st of
        Returned st' \<Rightarrow> st'
      | Fell_through st' \<Rightarrow> scan_reads cbt ubt reads st')"

text \<open>\<^verbatim>\<open>if not pe_mode: r = (r,)\<close>\<close>

fun mates :: "record_unit \<Rightarrow> sam_alignment option list" where
  "mates (Single r) = [Some r]"
| "mates (Pair r0 r1) = [r0, r1]"

definition identify_barcodes :: "config \<Rightarrow> record_unit \<Rightarrow> string option \<times> string option" where
  "identify_barcodes cfg r =
     (case scan_reads (cb_tag cfg) (ub_tag cfg) (mates r) (None, None, 0) of
        (c, u, nbar) \<Rightarrow> (c, u))"

subsection \<open>The count table\<close>

text \<open>
  \<^verbatim>\<open>counts = defaultdict(lambda: defaultdict(Counter))\<close>, nested as cell barcode, UMI,
  category. A category is a Python string: one of the five \<^verbatim>\<open>__...\<close> tokens or a feature
  identifier.
\<close>

type_synonym counter = "(string \<times> nat) list"
type_synonym umi_table = "(string option \<times> counter) list"
type_synonym count_table = "(string option \<times> umi_table) list"

text \<open>
  \<^verbatim>\<open>d[k] = f(d[k])\<close> on a dictionary whose missing keys read as \<open>dflt\<close>: an existing key
  keeps its position, a new key is inserted last.
\<close>

fun modify_default :: "'k \<Rightarrow> 'v \<Rightarrow> ('v \<Rightarrow> 'v) \<Rightarrow> ('k \<times> 'v) list \<Rightarrow> ('k \<times> 'v) list" where
  "modify_default k dflt f [] = [(k, f dflt)]"
| "modify_default k dflt f ((k', v) # kvs) =
     (if k' = k then (k', f v) # kvs else (k', v) # modify_default k dflt f kvs)"

text \<open>\<^verbatim>\<open>c[k] += 1\<close> on a \<^verbatim>\<open>Counter\<close>.\<close>

definition counter_incr :: "string \<Rightarrow> counter \<Rightarrow> counter" where
  "counter_incr k c = modify_default k 0 Suc c"

text \<open>\<^verbatim>\<open>counts[cb][ub][cat] += 1\<close>\<close>

definition count_incr :: "string option \<Rightarrow> string option \<Rightarrow> string \<Rightarrow> count_table \<Rightarrow> count_table" where
  "count_incr cb ub cat counts =
     modify_default cb [] (modify_default ub [] (counter_incr cat)) counts"

text \<open>Reading the table without creating entries: a missing bucket is an empty counter.\<close>

definition bucket :: "count_table \<Rightarrow> string option \<Rightarrow> string option \<Rightarrow> counter" where
  "bucket counts cb ub =
     (case map_of counts cb of
        None \<Rightarrow> []
      | Some umis \<Rightarrow> (case map_of umis ub of None \<Rightarrow> [] | Some c \<Rightarrow> c))"

definition counter_total :: "counter \<Rightarrow> nat" where
  "counter_total c = sum_list (map snd c)"

definition count_of :: "counter \<Rightarrow> string \<Rightarrow> nat" where
  "count_of c k = (case map_of c k of None \<Rightarrow> 0 | Some n \<Rightarrow> n)"

subsection \<open>Interval extraction\<close>

text \<open>
  The CIGAR match characters. The interval sequence \<^verbatim>\<open>iv_seq\<close> is a generator: its elements
  are computed when the overlap loop asks for them, so an element is either an interval or
  the exception that \<^verbatim>\<open>invert_strand\<close> raises at that point of the iteration.
\<close>

definition com :: "string list" where
  "com = [''M'', ''='', ''X'']"

type_synonym iv_seq = "(error + genomic_interval) list"

definition match_ops :: "cigar_op list \<Rightarrow> cigar_op list" where
  "match_ops cig = filter (\<lambda>co. co_type co \<in> set com \<and> co_size co > 0) cig"

text \<open>\<^verbatim>\<open>(co.ref_iv for co in cig if co.type in com and co.size > 0)\<close>\<close>

definition plain_ivs :: "cigar_op list \<Rightarrow> iv_seq" where
  "plain_ivs cig = map (\<lambda>co. Inr (ref_iv co)) (match_ops cig)"

text \<open>\<^verbatim>\<open>(invert_strand(co.ref_iv) for co in cig if co.type in com and co.size > 0)\<close>\<close>

definition inverted_ivs :: "cigar_op list \<Rightarrow> iv_seq" where
  "inverted_ivs cig = map (\<lambda>co. invert_strand (ref_iv co)) (match_ops cig)"

definition single_iv_seq :: "config \<Rightarrow> sam_alignment \<Rightarrow> iv_seq" where
  "single_iv_seq cfg r =
     (if stranded cfg \<noteq> ''reverse'' then plain_ivs (cigar r) else inverted_ivs (cigar r))"

text \<open>\<^verbatim>\<open>r[i] is not None and P(r[i])\<close>\<close>

fun present_and :: "(sam_alignment \<Rightarrow> bool) \<Rightarrow> sam_alignment option \<Rightarrow> bool" where
  "present_and P None = False"
| "present_and P (Some a) = P a"

text \<open>The paired-end interval sequence, as built before the pair is classified.\<close>

definition pair_iv_seq :: "config \<Rightarrow> sam_alignment option \<Rightarrow> sam_alignment option \<Rightarrow> iv_seq" where
  "pair_iv_seq cfg r0 r1 =
     (let iv_seq0 =
        (case r0 of
           None \<Rightarrow> []
         | Some a \<Rightarrow>
             if aligned a then
               (if stranded cfg \<noteq> ''reverse'' then plain_ivs (cigar a) else inverted_ivs (cigar a))
             else [])
      in case r1 of
           None \<Rightarrow> iv_seq0
         | Some b \<Rightarrow>
             if aligned b then
               (if stranded cfg \<noteq> ''reverse'' then iv_seq0 @ inverted_ivs (cigar b)
                else iv_seq0 @ plain_ivs (cigar b))
             else iv_seq0)"

subsection \<open>Classification of a record unit\<close>

text \<open>
  The first half of the loop body either executes \<^verbatim>\<open>continue\<close> (\<open>Next_record\<close>, with the
  table as it is then) or reaches the overlap resolution with an interval sequence
  (\<open>Resolve\<close>).
\<close>

datatype classified =
    Next_record count_table
  | Resolve count_table iv_seq

definition quality_single ::
  "config \<Rightarrow> string option \<Rightarrow> string option \<Rightarrow> sam_alignment \<Rightarrow> count_table \<Rightarrow> classified" where
  "quality_single cfg cb ub r counts =
     (if aQual r < minaqual cfg then Next_record (count_incr cb ub ''__too_low_aQual'' counts)
      else Resolve counts (single_iv_seq cfg r))"

definition classify_single ::
  "config \<Rightarrow> string option \<Rightarrow> string option \<Rightarrow> sam_alignment \<Rightarrow> count_table \<Rightarrow> classified" where
  "classify_single cfg cb ub r counts =
     (if \<not> aligned r then Next_record (count_incr cb ub ''__not_aligned'' counts)
      else if secondary_alignment_mode cfg = ''ignore'' \<and> not_primary_alignment r then
        Next_record counts
      else if supplementary_alignment_mode cfg = ''ignore'' \<and> supplementary r then
        Next_record counts
      else
        (case NH r of
           None \<Rightarrow> quality_single cfg cb ub r counts
         | Some n \<Rightarrow>
             if n > 1 then
               (let counts' = count_incr cb ub ''__alignment_not_unique'' counts
                in if multimapped_mode cfg = ''none'' then Next_record counts'
                   else quality_single cfg cb ub r counts')
             else quality_single cfg cb ub r counts))"

text \<open>
  The condition of the paired-end multimapping test,
  \<^verbatim>\<open>(r[0] is not None and r[0].optional_field("NH") > 1) or (r[1] is not None and ...)\<close>,
  evaluated left to right inside \<^verbatim>\<open>try\<close>: a present mate without the tag raises
  \<^verbatim>\<open>KeyError\<close>, and \<^verbatim>\<open>or\<close> does not evaluate its right operand when the left one is true.
\<close>

fun nh_gt_1 :: "sam_alignment option \<Rightarrow> error + bool" where
  "nh_gt_1 None = Inr False"
| "nh_gt_1 (Some a) = (case NH a of None \<Rightarrow> Inl KeyError | Some n \<Rightarrow> Inr (n > 1))"

definition pair_nh_gt_1 :: "sam_alignment option \<Rightarrow> sam_alignment option \<Rightarrow> error + bool" where
  "pair_nh_gt_1 r0 r1 =
     (case nh_gt_1 r0 of
        Inl e \<Rightarrow> Inl e
      | Inr b \<Rightarrow> if b then Inr True else nh_gt_1 r1)"

definition quality_pair ::
  "config \<Rightarrow> string option \<Rightarrow> string option \<Rightarrow> sam_alignment option \<Rightarrow> sam_alignment option \<Rightarrow>
   count_table \<Rightarrow> classified" where
  "quality_pair cfg cb ub r0 r1 counts =
     (if present_and (\<lambda>a. aQual a < minaqual cfg) r0 \<or> present_and (\<lambda>a. aQual a < minaqual cfg) r1
      then Next_record (count_incr cb ub ''__too_low_aQual'' counts)
      else Resolve counts (pair_iv_seq cfg r0 r1))"

definition classify_pair ::
  "config \<Rightarrow> string option \<Rightarrow> string option \<Rightarrow> sam_alignment option \<Rightarrow> sam_alignment option \<Rightarrow>
   count_table \<Rightarrow> classified" where
  "classify_pair cfg cb ub r0 r1 counts =
     (if \<not> present_and aligned r1 \<and> (r0 = None \<or> \<not> present_and aligned r0) then
        Next_record (count_incr cb ub ''__not_aligned'' counts)
      else if secondary_alignment_mode cfg = ''ignore'' \<and>
              (present_and not_primary_alignment r0 \<or> present_and not_primary_alignment r1) then
        Next_record counts
      else if supplementary_alignment_mode cfg = ''ignore'' \<and>
              (present_and supplementary r0 \<or> present_and supplementary r1) then
        Next_record counts
      else
        (case pair_nh_gt_1 r0 r1 of
           Inl e \<Rightarrow> quality_pair cfg cb ub r0 r1 counts
         | Inr b \<Rightarrow>
             if b then
               (let counts' = count_incr cb ub ''__alignment_not_unique'' counts
                in if multimapped_mode cfg = ''none'' then Next_record counts'
                   else quality_pair cfg cb ub r0 r1 counts')
             else quality_pair cfg cb ub r0 r1 counts))"

fun classify ::
  "config \<Rightarrow> string option \<Rightarrow> string option \<Rightarrow> record_unit \<Rightarrow> count_table \<Rightarrow> classified" where
  "classify cfg cb ub (Single r) counts = classify_single cfg cb ub r counts"
| "classify cfg cb ub (Pair r0 r1) counts = classify_pair cfg cb ub r0 r1 counts"

subsection \<open>Overlap resolution\<close>

text \<open>The inner loop of mode \<^verbatim>\<open>union\<close>: \<^verbatim>\<open>for iv2, fs2 in features[iv].steps(): fs = fs.union(fs2)\<close>\<close>

fun union_steps :: "(genomic_interval \<times> string fset) list \<Rightarrow> string fset \<Rightarrow> string fset" where
  "union_steps [] fs = fs"
| "union_steps ((iv2, fs2) # sts) fs = union_steps sts (fs |\<union>| fs2)"

fun union_loop :: "feature_index \<Rightarrow> iv_seq \<Rightarrow> string fset \<Rightarrow> error + string fset" where
  "union_loop F [] fs = Inr fs"
| "union_loop F (Inl e # ivs) fs = Inl e"
| "union_loop F (Inr iv # ivs) fs =
     (if chrom iv \<notin> chrom_vectors F then Inl UnknownChrom
      else union_loop F ivs (union_steps (steps F iv) fs))"

text \<open>
  The inner loop of the two intersection modes; the accumulator \<^verbatim>\<open>fs\<close> starts as
  \<^verbatim>\<open>None\<close>.
\<close>

fun inter_steps ::
  "string \<Rightarrow> (genomic_interval \<times> string fset) list \<Rightarrow> string fset option \<Rightarrow> string fset option" where
  "inter_steps mode [] fs = fs"
| "inter_steps mode ((iv2, fs2) # sts) fs =
     inter_steps mode sts
       (if fcard fs2 > 0 \<or> mode = ''intersection-strict'' then
          (case fs of None \<Rightarrow> Some fs2 | Some s \<Rightarrow> Some (s |\<inter>| fs2))
        else fs)"

fun inter_loop ::
  "string \<Rightarrow> feature_index \<Rightarrow> iv_seq \<Rightarrow> string fset option \<Rightarrow> error + string fset option" where
  "inter_loop mode F [] fs = Inr fs"
| "inter_loop mode F (Inl e # ivs) fs = Inl e"
| "inter_loop mode F (Inr iv # ivs) fs =
     (if chrom iv \<notin> chrom_vectors F then Inl UnknownChrom
      else inter_loop mode F ivs (inter_steps mode (steps F iv) fs))"

text \<open>
  The \<^verbatim>\<open>if overlap_mode == ... elif ... else\<close> statement: the value of \<^verbatim>\<open>fs\<close> after it,
  or the exception that leaves it.
\<close>

definition resolve_overlap :: "config \<Rightarrow> feature_index \<Rightarrow> iv_seq \<Rightarrow> error + string fset option" where
  "resolve_overlap cfg F ivs =
     (if overlap_mode cfg = ''union'' then
        (case union_loop F ivs {||} of Inl e \<Rightarrow> Inl e | Inr fs \<Rightarrow> Inr (Some fs))
      else if overlap_mode cfg \<in> {''intersection-strict'', ''intersection-nonempty''} then
        inter_loop (overlap_mode cfg) F ivs None
      else Inl (SystemExit ''Illegal overlap mode.''))"

subsection \<open>Assignment of the resolved feature set\<close>

text \<open>
  The parameter \<open>list_of\<close> is Python's \<^verbatim>\<open>list(fs)\<close> on a set of strings: the elements in
  the set's iteration order, which the language leaves open. \<^verbatim>\<open>list(fs)[0]\<close> raises
  \<^verbatim>\<open>IndexError\<close> on an empty list.
\<close>

definition assign ::
  "config \<Rightarrow> (string fset \<Rightarrow> string list) \<Rightarrow> string option \<Rightarrow> string option \<Rightarrow>
   string fset option \<Rightarrow> count_table \<Rightarrow> error + count_table" where
  "assign cfg list_of cb ub fs counts =
     (case fs of
        None \<Rightarrow> Inr (count_incr cb ub ''__no_feature'' counts)
      | Some s \<Rightarrow>
          if fcard s = 0 then Inr (count_incr cb ub ''__no_feature'' counts)
          else
            (let counts' = (if fcard s > 1 then count_incr cb ub ''__ambiguous'' counts else counts)
             in if multimapped_mode cfg = ''none'' then
                  (if fcard s = 1 then
                     (case list_of s of
                        [] \<Rightarrow> Inl IndexError
                      | fsi # _ \<Rightarrow> Inr (count_incr cb ub fsi counts'))
                   else Inr counts')
                else if multimapped_mode cfg = ''all'' then
                  Inr (fold (count_incr cb ub) (list_of s) counts')
                else Inl (SystemExit ''Illegal multimap mode.'')))"

text \<open>
  The \<^verbatim>\<open>try ... except UnknownChrom\<close> statement that ends the loop body: only
  \<^verbatim>\<open>UnknownChrom\<close> is caught.
\<close>

definition resolve_and_count ::
  "config \<Rightarrow> feature_index \<Rightarrow> (string fset \<Rightarrow> string list) \<Rightarrow> string option \<Rightarrow> string option \<Rightarrow>
   iv_seq \<Rightarrow> count_table \<Rightarrow> error + count_table" where
  "resolve_and_count cfg F list_of cb ub ivs counts =
     (case resolve_overlap cfg F ivs of
        Inl e \<Rightarrow>
          if e = UnknownChrom then Inr (count_incr cb ub ''__no_feature'' counts) else Inl e
      | Inr fs \<Rightarrow> assign cfg list_of cb ub fs counts)"

subsection \<open>The scan\<close>

text \<open>One iteration of \<^verbatim>\<open>for r in read_seq\<close>.\<close>

definition process_record ::
  "config \<Rightarrow> feature_index \<Rightarrow> (string fset \<Rightarrow> string list) \<Rightarrow> record_unit \<Rightarrow> count_table \<Rightarrow>
   error + count_table" where
  "process_record cfg F list_of r counts =
     (case identify_barcodes cfg r of
        (cb, ub) \<Rightarrow>
          (case classify cfg cb ub r counts of
             Next_record counts' \<Rightarrow> Inr counts'
           | Resolve counts' ivs \<Rightarrow> resolve_and_count cfg F list_of cb ub ivs counts'))"

text \<open>The loop: an exception in an iteration ends the run, and the table is lost with it.\<close>

fun scan ::
  "config \<Rightarrow> feature_index \<Rightarrow> (string fset \<Rightarrow> string list) \<Rightarrow> record_unit list \<Rightarrow> count_table \<Rightarrow>
   error + count_table" where
  "scan cfg F list_of [] counts = Inr counts"
| "scan cfg F list_of (r # rs) counts =
     (case process_record cfg F list_of r counts of
        Inl e \<Rightarrow> Inl e
      | Inr counts' \<Rightarrow> scan cfg F list_of rs counts')"

subsection \<open>The collapse pass\<close>

text \<open>
  \<^verbatim>\<open>udic.most_common(1)\<close> is \<^verbatim>\<open>heapq.nlargest(1, udic.items(), key=itemgetter(1))\<close>: the
  empty list for an empty counter, otherwise the one-element list holding
  \<^verbatim>\<open>max(udic.items(), key=itemgetter(1))\<close>. \<^verbatim>\<open>max\<close> walks the items in insertion order and
  replaces its candidate only by an item that compares strictly greater.
\<close>

fun max_item :: "string \<times> nat \<Rightarrow> counter \<Rightarrow> string \<times> nat" where
  "max_item best [] = best"
| "max_item best (kv # kvs) = max_item (if snd kv > snd best then kv else best) kvs"

definition most_common_1 :: "counter \<Rightarrow> counter" where
  "most_common_1 udic = (case udic of [] \<Rightarrow> [] | kv # kvs \<Rightarrow> [max_item kv kvs])"

text \<open>
  \<^verbatim>\<open>for ub, udic in ...items(): counts_cell[udic.most_common(1)[0][0]] += 1\<close>
\<close>

fun collapse_umis :: "umi_table \<Rightarrow> counter \<Rightarrow> error + counter" where
  "collapse_umis [] counts_cell = Inr counts_cell"
| "collapse_umis ((ub, udic) # items) counts_cell =
     (case most_common_1 udic of
        [] \<Rightarrow> Inl IndexError
      | kv # _ \<Rightarrow> collapse_umis items (counter_incr (fst kv) counts_cell))"

text \<open>
  \<^verbatim>\<open>sorted(counts.keys())\<close>. The keys of a dictionary are pairwise different, so at most one
  of them is \<^verbatim>\<open>None\<close>; Python 3 raises \<^verbatim>\<open>TypeError\<close> when it compares \<^verbatim>\<open>None\<close> with a
  string, which every sort of \<^verbatim>\<open>None\<close> together with a string does. Strings compare
  lexicographically by code point.
\<close>

definition py_sorted :: "string option list \<Rightarrow> error + string option list" where
  "py_sorted ks =
     (if None \<in> set ks \<and> (\<exists>k \<in> set ks. k \<noteq> None) then Inl TypeError else Inr (sort ks))"

text \<open>\<^verbatim>\<open>d[k] = v\<close> on a plain dictionary, and \<^verbatim>\<open>d.pop(k)\<close>.\<close>

definition dict_set :: "'k \<Rightarrow> 'v \<Rightarrow> ('k \<times> 'v) list \<Rightarrow> ('k \<times> 'v) list" where
  "dict_set k v d = modify_default k v (\<lambda>_. v) d"

definition dict_pop :: "'k \<Rightarrow> ('k \<times> 'v) list \<Rightarrow> error + ('v \<times> ('k \<times> 'v) list)" where
  "dict_pop k d =
     (case map_of d k of
        None \<Rightarrow> Inl KeyError
      | Some v \<Rightarrow> Inr (v, filter (\<lambda>kv. fst kv \<noteq> k) d))"

fun collapse_cells ::
  "string option list \<Rightarrow> count_table \<Rightarrow> (string option \<times> counter) list \<Rightarrow>
   error + (string option \<times> counter) list" where
  "collapse_cells [] counts counts_noumi = Inr counts_noumi"
| "collapse_cells (cb # cbs) counts counts_noumi =
     (case dict_pop cb counts of
        Inl e \<Rightarrow> Inl e
      | Inr (umis, counts') \<Rightarrow>
          (case collapse_umis umis [] of
             Inl e \<Rightarrow> Inl e
           | Inr counts_cell \<Rightarrow>
               collapse_cells cbs counts' (dict_set cb counts_cell counts_noumi)))"

text \<open>The returned dictionary \<^verbatim>\<open>{'cell_barcodes': cbs, 'counts': counts_noumi}\<close>.\<close>

record result =
  cell_barcodes :: "string option list"
  collapsed :: "(string option \<times> counter) list"

definition collapse :: "count_table \<Rightarrow> error + result" where
  "collapse counts =
     (case py_sorted (map fst counts) of
        Inl e \<Rightarrow> Inl e
      | Inr cbs \<Rightarrow>
          (case collapse_cells cbs counts [] of
             Inl e \<Rightarrow> Inl e
           | Inr counts_noumi \<Rightarrow> Inr \<lparr>cell_barcodes = cbs, collapsed = counts_noumi\<rparr>))"

definition count_reads_with_barcodes ::
  "config \<Rightarrow> feature_index \<Rightarrow> (string fset \<Rightarrow> string list) \<Rightarrow> record_unit list \<Rightarrow> error + result" where
  "count_reads_with_barcodes cfg F list_of read_seq =
     (case scan cfg F list_of read_seq [] of
        Inl e \<Rightarrow> Inl e
      | Inr counts \<Rightarrow> collapse counts)"

section \<open>Notions used to state the properties\<close>

text \<open>
  A record unit is ignored when one of the \<^verbatim>\<open>continue\<close> statements of the secondary or
  supplementary filter is reached: the unit has passed the not-aligned test, and the
  filter is set to \<^verbatim>\<open>ignore\<close> and a (present) record carries the flag.
\<close>

fun ignored :: "config \<Rightarrow> record_unit \<Rightarrow> bool" where
  "ignored cfg (Single r) =
     (aligned r \<and>
      ((secondary_alignment_mode cfg = ''ignore'' \<and> not_primary_alignment r) \<or>
       (supplementary_alignment_mode cfg = ''ignore'' \<and> supplementary r)))"
| "ignored cfg (Pair r0 r1) =
     ((present_and aligned r0 \<or> present_and aligned r1) \<and>
      ((secondary_alignment_mode cfg = ''ignore'' \<and>
        (present_and not_primary_alignment r0 \<or> present_and not_primary_alignment r1)) \<or>
       (supplementary_alignment_mode cfg = ''ignore'' \<and>
        (present_and supplementary r0 \<or> present_and supplementary r1))))"

text \<open>The number of units of a stream with a given barcode pair that are not ignored.\<close>

definition units_kept :: "config \<Rightarrow> string option \<Rightarrow> string option \<Rightarrow> record_unit list \<Rightarrow> nat" where
  "units_kept cfg cb ub rs =
     length (filter (\<lambda>r. identify_barcodes cfg r = (cb, ub) \<and> \<not> ignored cfg r) rs)"


text \<open>
  A record unit reaches the overlap resolution when the classification does not end in
  \<^verbatim>\<open>continue\<close>; this does not depend on the barcodes or on the table.
\<close>

definition reaches_resolution :: "config \<Rightarrow> record_unit \<Rightarrow> bool" where
  "reaches_resolution cfg r =
     (case classify cfg None None r [] of Next_record _ \<Rightarrow> False | Resolve _ _ \<Rightarrow> True)"

text \<open>
  The contribution of one mate to the interval sequence in the words of the
  specification: nothing for an absent or unaligned mate, otherwise the reference
  intervals of the matching-type operations of positive size, each one inverted or not.
\<close>

definition spec_mate_intervals :: "bool \<Rightarrow> sam_alignment option \<Rightarrow> iv_seq" where
  "spec_mate_intervals inverted m =
     (case m of
        None \<Rightarrow> []
      | Some a \<Rightarrow>
          if aligned a then
            map (\<lambda>co. if inverted then invert_strand (ref_iv co) else Inr (ref_iv co))
              (filter (\<lambda>co. co_type co \<in> {''M'', ''='', ''X''} \<and> 0 < co_size co) (cigar a))
          else [])"

text \<open>
  The overlap resolver's result read as a feature set: an accumulator that was never set
  (\<^verbatim>\<open>None\<close>) stands for the empty set.
\<close>

fun feature_set :: "string fset option \<Rightarrow> string fset" where
  "feature_set None = {||}"
| "feature_set (Some s) = s"

text \<open>
  The invariant that relates the accumulators of the three overlap modes while they
  consume the same steps.
\<close>

definition mono_inv :: "string fset option \<Rightarrow> string fset option \<Rightarrow> string fset \<Rightarrow> bool" where
  "mono_inv a b c \<longleftrightarrow>
     (a = None \<longrightarrow> b = None) \<and> feature_set a |\<subseteq>| feature_set b \<and> feature_set b |\<subseteq>| c"

text \<open>
  The winner of a bucket in the words of the specification: the category with the
  highest count, and among several with that count the one inserted first.
\<close>

definition top_count :: "counter \<Rightarrow> nat" where
  "top_count udic = Max (set (map snd udic))"

definition spec_winner :: "counter \<Rightarrow> string option" where
  "spec_winner udic = map_option fst (find (\<lambda>kv. snd kv = top_count udic) udic)"

text \<open>
  The keys of a table can be sorted when they are not \<^verbatim>\<open>None\<close> together with at least
  one string.
\<close>

definition comparable_keys :: "string option list \<Rightarrow> bool" where
  "comparable_keys ks \<longleftrightarrow> \<not> (None \<in> set ks \<and> (\<exists>k \<in> set ks. k \<noteq> None))"

text \<open>
  The shape of a table that is a Python dictionary of dictionaries of non-empty counters:
  keys occur once, and a counter that exists has been incremented at least once.
\<close>

definition wf_umis :: "umi_table \<Rightarrow> bool" where
  "wf_umis umis \<longleftrightarrow> distinct (map fst umis) \<and> list_all (\<lambda>kv. snd kv \<noteq> []) umis"

definition wf_table :: "count_table \<Rightarrow> bool" where
  "wf_table t \<longleftrightarrow> distinct (map fst t) \<and> list_all (\<lambda>kv. wf_umis (snd kv)) t"

section \<open>Example inputs\<close>

text \<open>
  The command line defaults, a forward-strand read of 50 matching bases with both barcode
  tags, and an index that knows \<^verbatim>\<open>chr1\<close> and reports the one feature \<^verbatim>\<open>GeneA\<close>
  everywhere.
\<close>

definition cfg0 :: config where
  "cfg0 = \<lparr>stranded = ''yes'', overlap_mode = ''union'', multimapped_mode = ''none'',
     secondary_alignment_mode = ''ignore'', supplementary_alignment_mode = ''ignore'',
     minaqual = 10, cb_tag = ''CB'', ub_tag = ''UB''\<rparr>"

definition iv_a :: genomic_interval where
  "iv_a = \<lparr>chrom = ''chr1'', iv_start = 100, iv_end = 150, strand = ''+''\<rparr>"

definition read0 :: sam_alignment where
  "read0 = \<lparr>aligned = True, not_primary_alignment = False, supplementary = False, aQual = 30,
     cigar = [\<lparr>co_type = ''M'', co_size = 50, ref_iv = iv_a\<rparr>],
     optional_fields = [(''CB'', ''X''), (''UB'', ''U'')], NH = Some 1\<rparr>"

definition idx0 :: feature_index where
  "idx0 = \<lparr>chrom_vectors = {''chr1''}, steps = (\<lambda>iv. [(iv, {|''GeneA''|})])\<rparr>"

text \<open>
  Other configurations: the multimapped mode \<^verbatim>\<open>all\<close>, and an overlap mode and a
  multimapped mode that are not among the known ones.
\<close>

definition cfg_all :: config where
  "cfg_all = cfg0\<lparr>multimapped_mode := ''all''\<rparr>"

definition cfg_bad_overlap :: config where
  "cfg_bad_overlap = cfg0\<lparr>overlap_mode := ''bogus''\<rparr>"

definition cfg_bad_multimap :: config where
  "cfg_bad_multimap = cfg0\<lparr>multimapped_mode := ''some''\<rparr>"

text \<open>
  Other intervals: one on the reverse strand of \<^verbatim>\<open>chr1\<close> and one on a chromosome the
  example indexes do not know.
\<close>

definition iv_b :: genomic_interval where
  "iv_b = \<lparr>chrom = ''chr1'', iv_start = 200, iv_end = 210, strand = ''-''\<rparr>"

definition iv_c :: genomic_interval where
  "iv_c = \<lparr>chrom = ''chrUn'', iv_start = 5, iv_end = 25, strand = ''+''\<rparr>"

text \<open>
  Variations of the read: its flags, quality and \<^verbatim>\<open>NH\<close> tag, its barcode tags, and its
  CIGAR operations.
\<close>

definition read_unaligned :: sam_alignment where
  "read_unaligned = read0\<lparr>aligned := False\<rparr>"

definition read_secondary :: sam_alignment where
  "read_secondary = read0\<lparr>not_primary_alignment := True\<rparr>"



definition read_multi :: sam_alignment where
  "read_multi = read0\<lparr>NH := Some 2\<rparr>"

definition read_multi_lowq :: sam_alignment where
  "read_multi_lowq = read0\<lparr>NH := Some 2, aQual := 3\<rparr>"

definition read_no_nh :: sam_alignment where
  "read_no_nh = read0\<lparr>NH := None\<rparr>"

definition read_unmapped_mate :: sam_alignment where
  "read_unmapped_mate = read0\<lparr>aligned := False, aQual := 0, NH := None\<rparr>"

definition read_cb_only :: sam_alignment where
  "read_cb_only = read0\<lparr>optional_fields := [(''CB'', ''X'')]\<rparr>"

definition read_untagged :: sam_alignment where
  "read_untagged = read0\<lparr>optional_fields := []\<rparr>"

definition read_cell_a :: sam_alignment where
  "read_cell_a = read0\<lparr>optional_fields := [(''CB'', ''A''), (''UB'', ''U'')]\<rparr>"


definition read_ops :: sam_alignment where
  "read_ops = read0\<lparr>cigar :=
     [\<lparr>co_type = ''M'', co_size = 50, ref_iv = iv_a\<rparr>,
      \<lparr>co_type = ''N'', co_size = 50, ref_iv = iv_a\<rparr>,
      \<lparr>co_type = ''X'', co_size = 0, ref_iv = iv_a\<rparr>,
      \<lparr>co_type = ''='', co_size = 10, ref_iv = iv_b\<rparr>]\<rparr>"

definition read_chr_un :: sam_alignment where
  "read_chr_un = read0\<lparr>cigar :=
     [\<lparr>co_type = ''M'', co_size = 50, ref_iv = iv_a\<rparr>,
      \<lparr>co_type = ''M'', co_size = 20, ref_iv = iv_c\<rparr>]\<rparr>"

text \<open>
  Other indexes: one whose every query yields three steps (one feature, none, two
  features), and one that reports \<^verbatim>\<open>GeneA\<close> for intervals starting at 100 and \<^verbatim>\<open>GeneB\<close>
  elsewhere.
\<close>

definition idx_ab :: feature_index where
  "idx_ab = \<lparr>chrom_vectors = {''chr1''},
     steps = (\<lambda>iv. [(iv, {|''GeneA''|}), (iv, {||}), (iv, {|''GeneA'', ''GeneB''|})])\<rparr>"


section \<open>Auxiliary lemmas\<close>

subsection \<open>Dictionaries and counters\<close>

lemma map_of_modify_default:
  "map_of (modify_default k dflt f xs) =
     (map_of xs)(k \<mapsto> f (case map_of xs k of None \<Rightarrow> dflt | Some v \<Rightarrow> v))"
  by (induction xs) (auto simp: fun_eq_iff)

lemma map_fst_modify_default:
  "map fst (modify_default k dflt f xs) =
     (if k \<in> set (map fst xs) then map fst xs else map fst xs @ [k])"
  by (induction xs) (fastforce simp: image_iff)+

lemma keys_modify_default:
  "set (map fst (modify_default k dflt f xs)) = insert k (set (map fst xs))"
  unfolding map_fst_modify_default by auto

lemma distinct_modify_default:
  "distinct (map fst xs) \<Longrightarrow> distinct (map fst (modify_default k dflt f xs))"
proof (induction xs)
  case Nil
  then show ?case by simp
next
  case (Cons kv xs)
  have "set (map fst (modify_default k dflt f xs)) = insert k (set (map fst xs))"
    by (rule keys_modify_default)
  with Cons show ?case by (cases kv) auto
qed

lemma values_modify_default:
  "list_all (\<lambda>kv. P (snd kv)) xs \<Longrightarrow> P (f dflt) \<Longrightarrow> (\<And>v. P v \<Longrightarrow> P (f v)) \<Longrightarrow>
   list_all (\<lambda>kv. P (snd kv)) (modify_default k dflt f xs)"
  by (induction xs) auto

lemma map_of_filter_other:
  "k' \<noteq> k \<Longrightarrow> map_of (filter (\<lambda>kv. fst kv \<noteq> k) d) k' = map_of d k'"
  by (induction d) auto

lemma counter_total_incr: "counter_total (counter_incr k c) = Suc (counter_total c)"
  unfolding counter_total_def counter_incr_def by (induction c) auto

lemma count_of_incr:
  "count_of (counter_incr k c) w = (if w = k then Suc (count_of c w) else count_of c w)"
  by (simp add: count_of_def counter_incr_def map_of_modify_default split: option.splits)

lemma bucket_count_incr:
  "bucket (count_incr cb' ub' cat t) cb ub =
     (if cb = cb' \<and> ub = ub' then counter_incr cat (bucket t cb ub) else bucket t cb ub)"
  by (simp add: bucket_def count_incr_def map_of_modify_default split: option.splits)

lemma total_count_incr:
  "counter_total (bucket (count_incr cb' ub' cat t) cb ub) =
     counter_total (bucket t cb ub) + (if cb = cb' \<and> ub = ub' then 1 else 0)"
  by (simp add: bucket_count_incr counter_total_incr)

lemma counter_incr_nonempty: "counter_incr k c \<noteq> []"
  unfolding counter_incr_def by (cases c) (auto split: if_splits)

lemma fcard_small: "fcard s \<noteq> Suc 0 \<Longrightarrow> \<not> Suc 0 < fcard s \<Longrightarrow> s = {||}"
proof -
  assume "fcard s \<noteq> Suc 0" and "\<not> Suc 0 < fcard s"
  then have "fcard s = 0" by arith
  then show ?thesis by simp
qed

subsection \<open>The shape of the table is kept by the scan\<close>

lemma wf_umis_incr: "wf_umis umis \<Longrightarrow> wf_umis (modify_default ub [] (counter_incr cat) umis)"
  unfolding wf_umis_def
  by (auto intro!: distinct_modify_default values_modify_default simp: counter_incr_nonempty)

lemma wf_umis_empty: "wf_umis []"
  by (simp add: wf_umis_def)

lemma wf_umis_nonempty: "wf_umis umis \<Longrightarrow> list_all (\<lambda>kv. snd kv \<noteq> []) umis"
  by (simp add: wf_umis_def)

lemma wf_count_incr: "wf_table t \<Longrightarrow> wf_table (count_incr cb ub cat t)"
  unfolding wf_table_def count_incr_def
  by (auto intro!: distinct_modify_default values_modify_default wf_umis_incr wf_umis_empty)

lemma wf_fold_count_incr: "wf_table t \<Longrightarrow> wf_table (fold (count_incr cb ub) cats t)"
  by (induction cats arbitrary: t) (auto simp: wf_count_incr)

lemma wf_classify:
  "wf_table t \<Longrightarrow> classify cfg cb ub r t = Next_record t' \<or> classify cfg cb ub r t = Resolve t' ivs \<Longrightarrow> wf_table t'"
  by (cases r)
     (auto simp: classify_single_def classify_pair_def quality_single_def quality_pair_def Let_def
        wf_count_incr split: if_splits option.splits sum.splits)

lemma wf_assign:
  "wf_table t \<Longrightarrow> assign cfg lo cb ub fs t = Inr t' \<Longrightarrow> wf_table t'"
  by (auto simp: assign_def Let_def wf_count_incr wf_fold_count_incr
        split: if_splits option.splits list.splits)

lemma wf_resolve_and_count:
  "wf_table t \<Longrightarrow> resolve_and_count cfg F lo cb ub ivs t = Inr t' \<Longrightarrow> wf_table t'"
  by (auto simp: resolve_and_count_def wf_count_incr split: sum.splits if_splits dest: wf_assign)

lemma wf_process_record:
  "wf_table t \<Longrightarrow> process_record cfg F lo r t = Inr t' \<Longrightarrow> wf_table t'"
  unfolding process_record_def
  by (auto split: prod.splits classified.splits dest: wf_classify wf_resolve_and_count)

lemma wf_scan:
  "wf_table t \<Longrightarrow> scan cfg F lo rs t = Inr t' \<Longrightarrow> wf_table t'"
  by (induction rs arbitrary: t) (auto split: sum.splits dest: wf_process_record)

lemma wf_scan_empty: "scan cfg F lo rs [] = Inr t \<Longrightarrow> wf_table t"
  by (rule wf_scan [of "[]"]) (simp_all add: wf_table_def)

subsection \<open>Bucket totals under multimapped mode none\<close>

lemma classify_none_next:
  "multimapped_mode cfg = ''none'' \<Longrightarrow> classify cfg cb' ub' r t = Next_record t' \<Longrightarrow>
   counter_total (bucket t' cb ub) =
     counter_total (bucket t cb ub) + (if cb = cb' \<and> ub = ub' \<and> \<not> ignored cfg r then 1 else 0)"
  by (cases r; cases "cb = cb' \<and> ub = ub'")
     (auto simp: classify_single_def classify_pair_def quality_single_def quality_pair_def Let_def
        total_count_incr split: if_splits option.splits sum.splits)

lemma classify_none_resolve:
  "multimapped_mode cfg = ''none'' \<Longrightarrow> classify cfg cb' ub' r t = Resolve t' ivs \<Longrightarrow>
   t' = t \<and> \<not> ignored cfg r"
  by (cases r)
     (auto simp: classify_single_def classify_pair_def quality_single_def quality_pair_def Let_def
        split: if_splits option.splits sum.splits)

lemma assign_none_total:
  "multimapped_mode cfg = ''none'' \<Longrightarrow> assign cfg lo cb' ub' fs t = Inr t' \<Longrightarrow>
   counter_total (bucket t' cb ub) =
     counter_total (bucket t cb ub) + (if cb = cb' \<and> ub = ub' then 1 else 0)"
  by (auto simp: assign_def Let_def total_count_incr dest: fcard_small
        split: if_splits option.splits list.splits)

lemma resolve_and_count_none_total:
  "multimapped_mode cfg = ''none'' \<Longrightarrow> resolve_and_count cfg F lo cb' ub' ivs t = Inr t' \<Longrightarrow>
   counter_total (bucket t' cb ub) =
     counter_total (bucket t cb ub) + (if cb = cb' \<and> ub = ub' then 1 else 0)"
  unfolding resolve_and_count_def
  by (auto simp: total_count_incr assign_none_total split: sum.splits if_splits)

lemma process_record_none_total:
  assumes "multimapped_mode cfg = ''none''" and "process_record cfg F lo r t = Inr t'"
  shows "counter_total (bucket t' cb ub) =
     counter_total (bucket t cb ub) +
       (if identify_barcodes cfg r = (cb, ub) \<and> \<not> ignored cfg r then 1 else 0)"
proof -
  obtain cb' ub' where bc: "identify_barcodes cfg r = (cb', ub')"
    by (cases "identify_barcodes cfg r")
  show ?thesis
  proof (cases "classify cfg cb' ub' r t")
    case (Next_record t1)
    with assms bc have "t' = t1" by (simp add: process_record_def)
    with classify_none_next [OF assms(1) Next_record, of cb ub] bc show ?thesis by auto
  next
    case (Resolve t1 ivs)
    from classify_none_resolve [OF assms(1) Resolve] have t1: "t1 = t" and ni: "\<not> ignored cfg r"
      by simp_all
    from assms bc Resolve t1 have "resolve_and_count cfg F lo cb' ub' ivs t = Inr t'"
      by (simp add: process_record_def)
    from resolve_and_count_none_total [OF assms(1) this, of cb ub] bc ni show ?thesis by auto
  qed
qed

lemma scan_none_total:
  "multimapped_mode cfg = ''none'' \<Longrightarrow> scan cfg F lo rs t = Inr t' \<Longrightarrow>
   counter_total (bucket t' cb ub) = counter_total (bucket t cb ub) + units_kept cfg cb ub rs"
proof (induction rs arbitrary: t)
  case Nil
  then show ?case by (simp add: units_kept_def)
next
  case (Cons r rs)
  from Cons.prems(2) obtain t1 where
    p: "process_record cfg F lo r t = Inr t1" and s: "scan cfg F lo rs t1 = Inr t'"
    by (auto split: sum.splits)
  from Cons.IH [OF Cons.prems(1) s] process_record_none_total [OF Cons.prems(1) p, of cb ub]
  show ?case by (simp add: units_kept_def)
qed

subsection \<open>The winner of a bucket and the collapse pass\<close>

lemma max_item_split:
  "\<exists>pre post. best # kvs = pre @ max_item best kvs # post \<and>
     (\<forall>kv \<in> set pre. snd kv < snd (max_item best kvs)) \<and>
     (\<forall>kv \<in> set post. snd kv \<le> snd (max_item best kvs))"
proof (induction kvs arbitrary: best)
  case Nil
  show ?case by (intro exI [of _ "[]"]) simp
next
  case (Cons kv kvs)
  define best' where "best' = (if snd kv > snd best then kv else best)"
  define m where "m = max_item best' kvs"
  have m_eq: "max_item best (kv # kvs) = m"
    by (simp add: m_def best'_def)
  from Cons.IH [of best'] obtain pre post where
    split: "best' # kvs = pre @ m # post" and
    lt: "\<forall>x \<in> set pre. snd x < snd m" and
    le: "\<forall>x \<in> set post. snd x \<le> snd m"
    unfolding m_def by blast
  have both: "snd best \<le> snd best'" "snd kv \<le> snd best'"
    by (simp_all add: best'_def)
  show ?case
  proof (cases pre)
    case Nil
    with split have m: "m = best'" and post: "post = kvs" by simp_all
    show ?thesis
    proof (cases "snd kv > snd best")
      case True
      then have "best # kv # kvs = [best] @ m # kvs" and "snd best < snd m"
        by (simp_all add: m best'_def)
      with le post show ?thesis unfolding m_eq by (intro exI [of _ "[best]"] exI [of _ kvs]) simp
    next
      case False
      then have "best # kv # kvs = [] @ m # (kv # kvs)" and "snd kv \<le> snd m"
        by (simp_all add: m best'_def)
      with le post show ?thesis
        unfolding m_eq by (intro exI [of _ "[]"] exI [of _ "kv # kvs"]) simp
    qed
  next
    case (Cons p pre')
    with split have p: "p = best'" and kvs: "kvs = pre' @ m # post" by simp_all
    from lt Cons p have "snd best' < snd m" by simp
    with both have "snd best < snd m" "snd kv < snd m" by simp_all
    moreover have "best # kv # kvs = (best # kv # pre') @ m # post"
      using kvs by simp
    moreover from lt Cons have "\<forall>x \<in> set pre'. snd x < snd m" by simp
    ultimately show ?thesis
      unfolding m_eq using le
      by (intro exI [of _ "best # kv # pre'"] exI [of _ post]) simp
  qed
qed

lemma first_max_find:
  assumes "xs = pre @ m # post"
    and "\<forall>kv \<in> set pre. snd kv < snd m"
    and "\<forall>kv \<in> set post. snd kv \<le> snd m"
  shows "top_count xs = snd m" and "find (\<lambda>kv. snd kv = snd m) xs = Some m"
proof -
  have "Max (set (map snd xs)) = snd m"
  proof (rule Max_eqI)
    show "finite (set (map snd xs))" by simp
    show "snd m \<in> set (map snd xs)" using assms(1) by simp
    fix y assume "y \<in> set (map snd xs)"
    then obtain kv where "kv \<in> set xs" "y = snd kv" by auto
    with assms show "y \<le> snd m" by (auto simp: less_imp_le)
  qed
  then show "top_count xs = snd m" by (simp add: top_count_def)
  have "find (\<lambda>kv. snd kv = snd m) pre = None"
    using assms(2) by (auto simp: find_None_iff)
  then show "find (\<lambda>kv. snd kv = snd m) xs = Some m"
    unfolding assms(1) by (induction pre) (auto split: if_splits)
qed

lemma most_common_1_winner:
  assumes "udic \<noteq> []"
  shows "\<exists>kv. most_common_1 udic = [kv] \<and> spec_winner udic = Some (fst kv)"
proof -
  from assms obtain x xs where udic: "udic = x # xs" by (cases udic) auto
  from max_item_split [of x xs] obtain pre post where
    "x # xs = pre @ max_item x xs # post"
    "\<forall>kv \<in> set pre. snd kv < snd (max_item x xs)"
    "\<forall>kv \<in> set post. snd kv \<le> snd (max_item x xs)" by blast
  from first_max_find [OF this] have "spec_winner (x # xs) = Some (fst (max_item x xs))"
    by (simp add: spec_winner_def)
  then show ?thesis by (simp add: udic most_common_1_def)
qed

lemma collapse_umis_ok:
  "list_all (\<lambda>kv. snd kv \<noteq> []) umis \<Longrightarrow>
   \<exists>cc. collapse_umis umis acc = Inr cc \<and>
     (\<forall>w. count_of cc w =
        count_of acc w + length (filter (\<lambda>kv. spec_winner (snd kv) = Some w) umis)) \<and>
     counter_total cc = counter_total acc + length umis"
proof (induction umis arbitrary: acc)
  case Nil
  show ?case by simp
next
  case (Cons p umis)
  obtain ub udic where p: "p = (ub, udic)" by (cases p)
  from Cons.prems p have ne: "udic \<noteq> []" and rest: "list_all (\<lambda>kv. snd kv \<noteq> []) umis"
    by simp_all
  from most_common_1_winner [OF ne] obtain kv where
    mc: "most_common_1 udic = [kv]" and w: "spec_winner udic = Some (fst kv)" by blast
  from Cons.IH [OF rest, of "counter_incr (fst kv) acc"] obtain cc where
    cc: "collapse_umis umis (counter_incr (fst kv) acc) = Inr cc" and
    cnt: "\<forall>w. count_of cc w = count_of (counter_incr (fst kv) acc) w +
            length (filter (\<lambda>kv. spec_winner (snd kv) = Some w) umis)" and
    tot: "counter_total cc = counter_total (counter_incr (fst kv) acc) + length umis"
    by blast
  have "collapse_umis (p # umis) acc = Inr cc"
    by (simp add: p mc cc)
  moreover have "\<forall>w'. count_of cc w' =
        count_of acc w' + length (filter (\<lambda>kv. spec_winner (snd kv) = Some w') (p # umis))"
    using cnt by (simp add: p w count_of_incr)
  moreover have "counter_total cc = counter_total acc + length (p # umis)"
    using tot by (simp add: counter_total_incr)
  ultimately show ?case by blast
qed

lemma collapse_cells_ok:
  "distinct cbs \<Longrightarrow> set cbs \<subseteq> set (map fst t) \<Longrightarrow> list_all (\<lambda>kv. wf_umis (snd kv)) t \<Longrightarrow>
   \<exists>noumi. collapse_cells cbs t acc = Inr noumi \<and>
     (\<forall>cb \<in> set cbs. \<exists>umis cc.
        map_of t cb = Some umis \<and> collapse_umis umis [] = Inr cc \<and> map_of noumi cb = Some cc) \<and>
     (\<forall>cb. cb \<notin> set cbs \<longrightarrow> map_of noumi cb = map_of acc cb)"
proof (induction cbs arbitrary: t acc)
  case Nil
  show ?case by simp
next
  case (Cons cb cbs)
  from Cons.prems(2) have "cb \<in> fst ` set t" by simp
  then obtain umis where umis: "map_of t cb = Some umis"
    by (cases "map_of t cb") (auto simp: map_of_eq_None_iff)
  then have "(cb, umis) \<in> set t" by (rule map_of_SomeD)
  with Cons.prems(3) have "wf_umis umis" by (auto simp: list_all_iff)
  from collapse_umis_ok [OF wf_umis_nonempty [OF this], of "[]"] obtain cc where
    cc: "collapse_umis umis [] = Inr cc" by blast
  define t' where "t' = filter (\<lambda>kv. fst kv \<noteq> cb) t"
  define acc' where "acc' = dict_set cb cc acc"
  have step: "collapse_cells (cb # cbs) t acc = collapse_cells cbs t' acc'"
    by (simp add: dict_pop_def umis cc t'_def acc'_def)
  from Cons.prems(1) have d: "distinct cbs" and notin: "cb \<notin> set cbs" by simp_all
  have sub: "set cbs \<subseteq> set (map fst t')"
  proof
    fix c assume c: "c \<in> set cbs"
    with Cons.prems(2) obtain v where "(c, v) \<in> set t" by auto
    moreover from c notin have "c \<noteq> cb" by auto
    ultimately have "(c, v) \<in> set t'" by (simp add: t'_def)
    then show "c \<in> set (map fst t')" by force
  qed
  have wf: "list_all (\<lambda>kv. wf_umis (snd kv)) t'"
    using Cons.prems(3) by (simp add: t'_def list_all_iff)
  from Cons.IH [OF d sub wf, of acc'] obtain noumi where
    r: "collapse_cells cbs t' acc' = Inr noumi" and
    in_cbs: "\<forall>c \<in> set cbs. \<exists>umis cc.
        map_of t' c = Some umis \<and> collapse_umis umis [] = Inr cc \<and> map_of noumi c = Some cc" and
    out_cbs: "\<forall>c. c \<notin> set cbs \<longrightarrow> map_of noumi c = map_of acc' c"
    by blast
  have same: "map_of t' c = map_of t c" if "c \<noteq> cb" for c
    using that by (simp add: t'_def map_of_filter_other)
  have "map_of noumi cb = Some cc"
    using out_cbs notin by (simp add: acc'_def dict_set_def map_of_modify_default)
  moreover have "\<forall>c \<in> set cbs. \<exists>umis cc.
        map_of t c = Some umis \<and> collapse_umis umis [] = Inr cc \<and> map_of noumi c = Some cc"
    using in_cbs notin same by (metis)
  moreover have "\<forall>c. c \<notin> set (cb # cbs) \<longrightarrow> map_of noumi c = map_of acc c"
    using out_cbs by (simp add: acc'_def dict_set_def map_of_modify_default)
  ultimately show ?case
    unfolding step using r umis cc by auto
qed

lemma py_sorted_cases:
  "py_sorted ks = (if comparable_keys ks then Inr (sort ks) else Inl TypeError)"
  by (simp add: py_sorted_def comparable_keys_def)

lemma collapse_wf:
  assumes wf: "wf_table t" and cmp: "comparable_keys (map fst t)"
  shows "\<exists>noumi. collapse t = Inr \<lparr>cell_barcodes = sort (map fst t), collapsed = noumi\<rparr> \<and>
     (\<forall>cb umis. map_of t cb = Some umis \<longrightarrow>
        (\<exists>cc. collapse_umis umis [] = Inr cc \<and> map_of noumi cb = Some cc))"
proof -
  from wf have d: "distinct (sort (map fst t))" and w: "list_all (\<lambda>kv. wf_umis (snd kv)) t"
    by (simp_all add: wf_table_def)
  have s: "set (sort (map fst t)) \<subseteq> set (map fst t)" by simp
  from collapse_cells_ok [OF d s w, of "[]"] obtain noumi where
    r: "collapse_cells (sort (map fst t)) t [] = Inr noumi" and
    in_cbs: "\<forall>cb \<in> set (sort (map fst t)). \<exists>umis cc.
        map_of t cb = Some umis \<and> collapse_umis umis [] = Inr cc \<and> map_of noumi cb = Some cc"
    by blast
  have "collapse t = Inr \<lparr>cell_barcodes = sort (map fst t), collapsed = noumi\<rparr>"
    using cmp r by (simp add: collapse_def py_sorted_cases)
  moreover have "\<exists>cc. collapse_umis umis [] = Inr cc \<and> map_of noumi cb = Some cc"
    if "map_of t cb = Some umis" for cb umis
  proof -
    from that have "cb \<in> set (sort (map fst t))"
      by (auto dest: map_of_SomeD simp: image_iff intro: bexI [of _ "(cb, umis)"])
    with in_cbs that show ?thesis by force
  qed
  ultimately show ?thesis by blast
qed

subsection \<open>The three overlap loops in step\<close>

lemma mono_inv_step:
  assumes "mono_inv a b c"
  shows "mono_inv
     (case a of None \<Rightarrow> Some fs2 | Some s \<Rightarrow> Some (s |\<inter>| fs2))
     (if fcard fs2 > 0 then (case b of None \<Rightarrow> Some fs2 | Some s \<Rightarrow> Some (s |\<inter>| fs2)) else b)
     (c |\<union>| fs2)"
  using assms unfolding mono_inv_def
  by (cases a; cases b) auto

lemma mono_inv_steps:
  "mono_inv a b c \<Longrightarrow>
   mono_inv (inter_steps ''intersection-strict'' sts a)
     (inter_steps ''intersection-nonempty'' sts b) (union_steps sts c)"
proof (induction sts arbitrary: a b c)
  case Nil
  then show ?case by simp
next
  case (Cons st sts)
  obtain iv2 fs2 where st: "st = (iv2, fs2)" by (cases st)
  from mono_inv_step [OF Cons.prems, of fs2] show ?case
    unfolding st by (simp add: Cons.IH)
qed

lemma mono_inv_loops:
  "\<forall>iv \<in> set ivs. chrom iv \<in> chrom_vectors F \<Longrightarrow> mono_inv a b c \<Longrightarrow>
   \<exists>a' b' c'.
     inter_loop ''intersection-strict'' F (map Inr ivs) a = Inr a' \<and>
     inter_loop ''intersection-nonempty'' F (map Inr ivs) b = Inr b' \<and>
     union_loop F (map Inr ivs) c = Inr c' \<and> mono_inv a' b' c'"
proof (induction ivs arbitrary: a b c)
  case Nil
  then show ?case by simp
next
  case (Cons iv ivs)
  from Cons.prems have known: "chrom iv \<in> chrom_vectors F"
    and rest: "\<forall>iv \<in> set ivs. chrom iv \<in> chrom_vectors F" by simp_all
  from Cons.IH [OF rest mono_inv_steps [OF Cons.prems(2), of "steps F iv"]] known
  show ?case by simp
qed

subsection \<open>Units that reach the overlap resolution\<close>

lemma classify_shape:
  "(\<exists>t ivs. classify cfg cb ub r counts = Resolve t ivs) \<longleftrightarrow> reaches_resolution cfg r"
  unfolding reaches_resolution_def
  by (cases r)
     (auto simp: classify_single_def classify_pair_def quality_single_def quality_pair_def Let_def
        split: if_splits option.splits sum.splits)

lemma classify_not_reaching:
  "\<not> reaches_resolution cfg r \<Longrightarrow> \<exists>t. classify cfg cb ub r counts = Next_record t"
  using classify_shape [of cfg cb ub r counts]
  by (cases "classify cfg cb ub r counts") auto

lemma classify_resolve_counts:
  "classify cfg cb ub r counts = Resolve counts' ivs \<Longrightarrow>
   counts' = counts \<or> counts' = count_incr cb ub ''__alignment_not_unique'' counts"
  by (cases r)
     (auto simp: classify_single_def classify_pair_def quality_single_def quality_pair_def Let_def
        split: if_splits option.splits sum.splits)

lemma process_record_bad_overlap:
  assumes "overlap_mode cfg \<notin> {''union'', ''intersection-strict'', ''intersection-nonempty''}"
  shows "reaches_resolution cfg r \<Longrightarrow>
           process_record cfg F lo r counts = Inl (SystemExit ''Illegal overlap mode.'')"
    and "\<not> reaches_resolution cfg r \<Longrightarrow> \<exists>t. process_record cfg F lo r counts = Inr t"
proof -
  obtain cb ub where bc: "identify_barcodes cfg r = (cb, ub)"
    by (cases "identify_barcodes cfg r")
  {
    assume "reaches_resolution cfg r"
    with classify_shape [of cfg cb ub r counts] obtain t ivs where
      "classify cfg cb ub r counts = Resolve t ivs" by blast
    with assms bc show "process_record cfg F lo r counts = Inl (SystemExit ''Illegal overlap mode.'')"
      by (simp add: process_record_def resolve_and_count_def resolve_overlap_def)
  }
  {
    assume "\<not> reaches_resolution cfg r"
    from classify_not_reaching [OF this, of cb ub counts] obtain t where
      "classify cfg cb ub r counts = Next_record t" by blast
    with bc show "\<exists>t. process_record cfg F lo r counts = Inr t"
      by (simp add: process_record_def)
  }
qed

lemma scan_bad_overlap_abort:
  assumes "overlap_mode cfg \<notin> {''union'', ''intersection-strict'', ''intersection-nonempty''}"
  shows "\<exists>r \<in> set rs. reaches_resolution cfg r \<Longrightarrow>
         scan cfg F lo rs counts = Inl (SystemExit ''Illegal overlap mode.'')"
proof (induction rs arbitrary: counts)
  case Nil
  then show ?case by simp
next
  case (Cons r rs)
  show ?case
  proof (cases "reaches_resolution cfg r")
    case True
    from process_record_bad_overlap(1) [OF assms True] show ?thesis by simp
  next
    case False
    from process_record_bad_overlap(2) [OF assms False, of F lo counts] obtain t where
      t: "process_record cfg F lo r counts = Inr t" by blast
    from Cons.prems False have "\<exists>r \<in> set rs. reaches_resolution cfg r" by simp
    from Cons.IH [OF this, of t] t show ?thesis by simp
  qed
qed

lemma scan_bad_overlap_silent:
  assumes "overlap_mode cfg \<notin> {''union'', ''intersection-strict'', ''intersection-nonempty''}"
  shows "\<forall>r \<in> set rs. \<not> reaches_resolution cfg r \<Longrightarrow> \<exists>t. scan cfg F lo rs counts = Inr t"
proof (induction rs arbitrary: counts)
  case Nil
  then show ?case by simp
next
  case (Cons r rs)
  from Cons.prems have nr: "\<not> reaches_resolution cfg r"
    and rest: "\<forall>r \<in> set rs. \<not> reaches_resolution cfg r" by simp_all
  from process_record_bad_overlap(2) [OF assms nr, of F lo counts] obtain t where
    t: "process_record cfg F lo r counts = Inr t" by blast
  from Cons.IH [OF rest, of t] t show ?case by simp
qed

lemma union_loop_unknown:
  "chrom iv \<notin> chrom_vectors F \<Longrightarrow>
   union_loop F (map Inr pre @ Inr iv # post) fs = Inl UnknownChrom"
  by (induction pre arbitrary: fs) auto

lemma inter_loop_unknown:
  "chrom iv \<notin> chrom_vectors F \<Longrightarrow>
   inter_loop mode F (map Inr pre @ Inr iv # post) fs = Inl UnknownChrom"
  by (induction pre arbitrary: fs) auto

lemma resolve_overlap_unknown:
  "overlap_mode cfg \<in> {''union'', ''intersection-strict'', ''intersection-nonempty''} \<Longrightarrow>
   chrom iv \<notin> chrom_vectors F \<Longrightarrow>
   resolve_overlap cfg F (map Inr pre @ Inr iv # post) = Inl UnknownChrom"
  unfolding resolve_overlap_def
  by (auto simp: union_loop_unknown inter_loop_unknown)

section \<open>The claims\<close>

subsection \<open>C1: bucket totals and the number of counted units\<close>

text \<open>
  C1, as stated, fails for \<^verbatim>\<open>multimapped_mode = 'all'\<close>: a single-end read with
  \<^verbatim>\<open>NH = 2\<close> and a mapping quality below the threshold is counted once as
  \<^verbatim>\<open>__alignment_not_unique\<close> and once as \<^verbatim>\<open>__too_low_aQual\<close>, so its bucket sums to 2
  although the stream holds one unit with that barcode pair and the filters dropped none.
\<close>

theorem bucket_total_all_mode_counterexample:
  "multimapped_mode cfg_all = ''all'' \<and>
   scan cfg_all idx0 sorted_list_of_fset [Single read_multi_lowq] [] =
     Inr [(Some ''X'', [(Some ''U'', [(''__alignment_not_unique'', 1), (''__too_low_aQual'', 1)])])] \<and>
   counter_total
     (bucket [(Some ''X'', [(Some ''U'', [(''__alignment_not_unique'', 1), (''__too_low_aQual'', 1)])])]
        (Some ''X'') (Some ''U'')) = 2 \<and>
   units_kept cfg_all (Some ''X'') (Some ''U'') [Single read_multi_lowq] = 1"
  by code_simp

text \<open>
  C1, amended: for \<^verbatim>\<open>multimapped_mode = 'none'\<close>, whenever the scan of a stream completes,
  the counts of every (cell, umi) bucket of the resulting table sum to the number of record
  units of the stream that carry this barcode pair and were not dropped by the secondary or
  supplementary filter. This holds for every overlap mode, index and set iteration order.
\<close>

theorem bucket_total_eq_units_kept:
  assumes "multimapped_mode cfg = ''none''" and "scan cfg F list_of rs [] = Inr t"
  shows "counter_total (bucket t cb ub) = units_kept cfg cb ub rs"
  using scan_none_total [OF assms, of cb ub] by (simp add: bucket_def counter_total_def)

text \<open>
  C1, witness: a stream of three reads with the same barcodes, the second one a secondary
  alignment (dropped) and the third one multimapped; the bucket sums to 2.
\<close>

theorem bucket_total_eq_units_kept_witness:
  "multimapped_mode cfg0 = ''none'' \<and>
   scan cfg0 idx0 sorted_list_of_fset [Single read0, Single read_secondary, Single read_multi] [] =
     Inr [(Some ''X'', [(Some ''U'', [(''GeneA'', 1), (''__alignment_not_unique'', 1)])])] \<and>
   counter_total
     (bucket [(Some ''X'', [(Some ''U'', [(''GeneA'', 1), (''__alignment_not_unique'', 1)])])]
        (Some ''X'') (Some ''U'')) =
     units_kept cfg0 (Some ''X'') (Some ''U'') [Single read0, Single read_secondary, Single read_multi] \<and>
   units_kept cfg0 (Some ''X'') (Some ''U'') [Single read0, Single read_secondary, Single read_multi] = 2"
proof -
  have m: "multimapped_mode cfg0 = ''none''"
    by (simp add: cfg0_def)
  have s: "scan cfg0 idx0 sorted_list_of_fset [Single read0, Single read_secondary, Single read_multi] [] =
     Inr [(Some ''X'', [(Some ''U'', [(''GeneA'', 1), (''__alignment_not_unique'', 1)])])]"
    by code_simp
  have k: "units_kept cfg0 (Some ''X'') (Some ''U'')
      [Single read0, Single read_secondary, Single read_multi] = 2"
    by code_simp
  from bucket_total_eq_units_kept [OF m s, of "Some ''X''" "Some ''U''"] m s k
  show ?thesis by simp
qed

subsection \<open>C2: the majority vote\<close>




subsection \<open>C3: monotonicity of the overlap modes\<close>

text \<open>
  C3: for every sequence of intervals whose chromosomes are all known to the index (so
  that no \<^verbatim>\<open>UnknownChrom\<close> arises), the overlap resolution returns in each of the three
  modes, and the feature set of mode \<^verbatim>\<open>intersection-strict\<close> is a subset of the one of mode
  \<^verbatim>\<open>intersection-nonempty\<close>, which is a subset of the one of mode \<^verbatim>\<open>union\<close>, an unset
  accumulator counting as the empty set.
\<close>

theorem overlap_modes_monotone:
  assumes "\<forall>iv \<in> set ivs. chrom iv \<in> chrom_vectors F"
  shows "\<exists>a b c.
     resolve_overlap (cfg\<lparr>overlap_mode := ''intersection-strict''\<rparr>) F (map Inr ivs) = Inr a \<and>
     resolve_overlap (cfg\<lparr>overlap_mode := ''intersection-nonempty''\<rparr>) F (map Inr ivs) = Inr b \<and>
     resolve_overlap (cfg\<lparr>overlap_mode := ''union''\<rparr>) F (map Inr ivs) = Inr c \<and>
     feature_set a |\<subseteq>| feature_set b \<and> feature_set b |\<subseteq>| feature_set c"
proof -
  have "mono_inv None None {||}" by (simp add: mono_inv_def)
  from mono_inv_loops [OF assms this] obtain a b c where
    "inter_loop ''intersection-strict'' F (map Inr ivs) None = Inr a"
    "inter_loop ''intersection-nonempty'' F (map Inr ivs) None = Inr b"
    "union_loop F (map Inr ivs) {||} = Inr c" "mono_inv a b c" by blast
  then show ?thesis
    by (intro exI [of _ a] exI [of _ b] exI [of _ "Some c"])
       (simp add: resolve_overlap_def mono_inv_def)
qed

text \<open>
  C3, witness: one interval on \<^verbatim>\<open>chr1\<close> whose steps carry the sets \<open>{GeneA}\<close>, \<open>{}\<close> and
  \<open>{GeneA, GeneB}\<close>; the three modes yield \<open>{}\<close>, \<open>{GeneA}\<close> and \<open>{GeneA, GeneB}\<close>.
\<close>

theorem overlap_modes_monotone_witness:
  "chrom iv_a \<in> chrom_vectors idx_ab \<and>
   resolve_overlap (cfg0\<lparr>overlap_mode := ''intersection-strict''\<rparr>) idx_ab (map Inr [iv_a]) = Inr (Some {||}) \<and>
   resolve_overlap (cfg0\<lparr>overlap_mode := ''intersection-nonempty''\<rparr>) idx_ab (map Inr [iv_a]) = Inr (Some {|''GeneA''|}) \<and>
   resolve_overlap (cfg0\<lparr>overlap_mode := ''union''\<rparr>) idx_ab (map Inr [iv_a]) = Inr (Some {|''GeneA'', ''GeneB''|}) \<and>
   (\<exists>a b c.
     resolve_overlap (cfg0\<lparr>overlap_mode := ''intersection-strict''\<rparr>) idx_ab (map Inr [iv_a]) = Inr a \<and>
     resolve_overlap (cfg0\<lparr>overlap_mode := ''intersection-nonempty''\<rparr>) idx_ab (map Inr [iv_a]) = Inr b \<and>
     resolve_overlap (cfg0\<lparr>overlap_mode := ''union''\<rparr>) idx_ab (map Inr [iv_a]) = Inr c \<and>
     feature_set a |\<subseteq>| feature_set b \<and> feature_set b |\<subseteq>| feature_set c)"
proof -
  have k: "chrom iv_a \<in> chrom_vectors idx_ab"
    by (simp add: iv_a_def idx_ab_def)
  then have h: "\<forall>iv \<in> set [iv_a]. chrom iv \<in> chrom_vectors idx_ab"
    by simp
  have s: "resolve_overlap (cfg0\<lparr>overlap_mode := ''intersection-strict''\<rparr>) idx_ab (map Inr [iv_a]) = Inr (Some {||})"
    by (simp add: resolve_overlap_def cfg0_def idx_ab_def iv_a_def fcard_fempty)
  have n: "resolve_overlap (cfg0\<lparr>overlap_mode := ''intersection-nonempty''\<rparr>) idx_ab (map Inr [iv_a]) = Inr (Some {|''GeneA''|})"
    by (simp add: resolve_overlap_def cfg0_def idx_ab_def iv_a_def fcard_fempty)
  have u: "resolve_overlap (cfg0\<lparr>overlap_mode := ''union''\<rparr>) idx_ab (map Inr [iv_a]) = Inr (Some {|''GeneA'', ''GeneB''|})"
    by (auto simp: resolve_overlap_def cfg0_def idx_ab_def iv_a_def)
  from overlap_modes_monotone [OF h, of cfg0] k s n u show ?thesis by blast
qed

subsection \<open>C4: the order of the checks on a single-end record\<close>



subsection \<open>C5: the multimapping test on a pair\<close>

text \<open>
  C5 says that a pair is recorded as \<^verbatim>\<open>__alignment_not_unique\<close> whenever either present mate
  has \<^verbatim>\<open>NH > 1\<close>. The test reads the tag of the first mate first, inside a \<^verbatim>\<open>try\<close> whose
  \<^verbatim>\<open>except KeyError: pass\<close> covers the whole condition: when the first mate is present and
  has no \<^verbatim>\<open>NH\<close> tag, the second mate is never looked at. The pair below (first mate without
  the tag, second mate with \<^verbatim>\<open>NH = 2\<close>) is counted for \<^verbatim>\<open>GeneA\<close> and not recorded as
  multimapped; the same two mates in the other order are. The same happens when the first
  mate is an unmapped record, which carries no \<^verbatim>\<open>NH\<close> tag: the pair ends as
  \<^verbatim>\<open>__too_low_aQual\<close>, and the multimapping of its second mate goes unrecorded.
\<close>

theorem pair_multimapped_first_mate_without_NH:
  "process_record cfg0 idx0 sorted_list_of_fset (Pair (Some read_no_nh) (Some read_multi)) [] =
     Inr [(Some ''X'', [(Some ''U'', [(''GeneA'', 1)])])] \<and>
   process_record cfg0 idx0 sorted_list_of_fset (Pair (Some read_multi) (Some read_no_nh)) [] =
     Inr [(Some ''X'', [(Some ''U'', [(''__alignment_not_unique'', 1)])])] \<and>
   process_record cfg0 idx0 sorted_list_of_fset (Pair (Some read_unmapped_mate) (Some read_multi)) [] =
     Inr [(Some ''X'', [(Some ''U'', [(''__too_low_aQual'', 1)])])]"
  by code_simp

subsection \<open>C6: barcode extraction\<close>

text \<open>
  C6 says that the scan stops early only once both the cell and the UMI tag have been
  found, so that a UMI tag present on some mate is always returned. The counter
  \<^verbatim>\<open>nbar\<close> counts tag occurrences, not components: the cell tag on the first mate and
  the cell tag again on the second mate bring it to 2, and the function returns before it
  reaches the UMI tag of the second mate.
\<close>

theorem identify_barcodes_stops_on_repeated_cell_tag:
  "identify_barcodes cfg0 (Pair (Some read_cb_only) (Some read0)) = (Some ''X'', None) \<and>
   (''UB'', ''U'') \<in> set (optional_fields read0)"
  by (simp add: identify_barcodes_def cfg0_def read_cb_only_def read0_def)

subsection \<open>C7: unknown modes\<close>

text \<open>
  C7, as stated, fails: with an overlap mode that is none of the three known ones, a
  stream of one unaligned read is processed to its end. No error is raised, the read is
  counted as \<^verbatim>\<open>__not_aligned\<close>, and the function returns its result.
\<close>

theorem unknown_overlap_mode_unnoticed_counterexample:
  "overlap_mode cfg_bad_overlap \<notin> {''union'', ''intersection-strict'', ''intersection-nonempty''} \<and>
   count_reads_with_barcodes cfg_bad_overlap idx0 sorted_list_of_fset [Single read_unaligned] =
     Inr \<lparr>cell_barcodes = [Some ''X''], collapsed = [(Some ''X'', [(''__not_aligned'', 1)])]\<rparr>"
  by code_simp

text \<open>
  C7, amended: the modes are checked where they are used. With an unknown overlap mode the
  scan ends with \<^verbatim>\<open>Illegal overlap mode.\<close> when the stream holds a unit that reaches the
  overlap resolution (the units before the first such unit are processed as usual), and it
  completes without an error when no unit does. With an unknown multimapped mode the
  overlap step of a unit ends with \<^verbatim>\<open>Illegal multimap mode.\<close> when the resolved feature set
  is not empty, and counts \<^verbatim>\<open>__no_feature\<close> without an error when the set is unset or empty
  or a chromosome is unknown.
\<close>

theorem config_error_raised_at_first_use:
  "(overlap_mode cfg \<notin> {''union'', ''intersection-strict'', ''intersection-nonempty''} \<and>
    (\<exists>r \<in> set rs. reaches_resolution cfg r) \<longrightarrow>
      scan cfg F list_of rs counts = Inl (SystemExit ''Illegal overlap mode.'')) \<and>
   (overlap_mode cfg \<notin> {''union'', ''intersection-strict'', ''intersection-nonempty''} \<and>
    (\<forall>r \<in> set rs. \<not> reaches_resolution cfg r) \<longrightarrow>
      (\<exists>t. scan cfg F list_of rs counts = Inr t)) \<and>
   (multimapped_mode cfg \<notin> {''none'', ''all''} \<and>
    resolve_overlap cfg F ivs = Inr (Some s) \<and> s \<noteq> {||} \<longrightarrow>
      resolve_and_count cfg F list_of cb ub ivs counts = Inl (SystemExit ''Illegal multimap mode.'')) \<and>
   (multimapped_mode cfg \<notin> {''none'', ''all''} \<and>
    resolve_overlap cfg F ivs \<in> {Inr None, Inr (Some {||}), Inl UnknownChrom} \<longrightarrow>
      resolve_and_count cfg F list_of cb ub ivs counts =
        Inr (count_incr cb ub ''__no_feature'' counts))"
proof (intro conjI impI)
  assume "overlap_mode cfg \<notin> {''union'', ''intersection-strict'', ''intersection-nonempty''} \<and>
    (\<exists>r \<in> set rs. reaches_resolution cfg r)"
  then show "scan cfg F list_of rs counts = Inl (SystemExit ''Illegal overlap mode.'')"
    using scan_bad_overlap_abort by blast
next
  assume "overlap_mode cfg \<notin> {''union'', ''intersection-strict'', ''intersection-nonempty''} \<and>
    (\<forall>r \<in> set rs. \<not> reaches_resolution cfg r)"
  then show "\<exists>t. scan cfg F list_of rs counts = Inr t"
    using scan_bad_overlap_silent by blast
next
  assume "multimapped_mode cfg \<notin> {''none'', ''all''} \<and>
    resolve_overlap cfg F ivs = Inr (Some s) \<and> s \<noteq> {||}"
  then show "resolve_and_count cfg F list_of cb ub ivs counts =
      Inl (SystemExit ''Illegal multimap mode.'')"
    by (simp add: resolve_and_count_def assign_def Let_def)
next
  assume "multimapped_mode cfg \<notin> {''none'', ''all''} \<and>
    resolve_overlap cfg F ivs \<in> {Inr None, Inr (Some {||}), Inl UnknownChrom}"
  then show "resolve_and_count cfg F list_of cb ub ivs counts =
      Inr (count_incr cb ub ''__no_feature'' counts)"
    by (auto simp: resolve_and_count_def assign_def)
qed

text \<open>
  C7, witness: an unaligned read followed by an ordinary read under an unknown overlap
  mode (abort at the second read), the unaligned read alone (no abort), and an interval
  with a feature and one on an unknown chromosome under an unknown multimapped mode.
\<close>

theorem config_error_raised_at_first_use_witness:
  "overlap_mode cfg_bad_overlap \<notin> {''union'', ''intersection-strict'', ''intersection-nonempty''} \<and>
   reaches_resolution cfg_bad_overlap (Single read0) \<and>
   \<not> reaches_resolution cfg_bad_overlap (Single read_unaligned) \<and>
   scan cfg_bad_overlap idx0 sorted_list_of_fset [Single read_unaligned, Single read0] [] =
     Inl (SystemExit ''Illegal overlap mode.'') \<and>
   (\<exists>t. scan cfg_bad_overlap idx0 sorted_list_of_fset [Single read_unaligned] [] = Inr t) \<and>
   multimapped_mode cfg_bad_multimap \<notin> {''none'', ''all''} \<and>
   resolve_overlap cfg_bad_multimap idx0 [Inr iv_a] = Inr (Some {|''GeneA''|}) \<and>
   resolve_and_count cfg_bad_multimap idx0 sorted_list_of_fset None None [Inr iv_a] [] =
     Inl (SystemExit ''Illegal multimap mode.'') \<and>
   resolve_overlap cfg_bad_multimap idx0 [Inr iv_c] = Inl UnknownChrom \<and>
   resolve_and_count cfg_bad_multimap idx0 sorted_list_of_fset None None [Inr iv_c] [] =
     Inr [(None, [(None, [(''__no_feature'', 1)])])]"
proof -
  have o: "overlap_mode cfg_bad_overlap \<notin>
      {''union'', ''intersection-strict'', ''intersection-nonempty''}"
    by (simp add: cfg_bad_overlap_def cfg0_def)
  have r1: "reaches_resolution cfg_bad_overlap (Single read0)"
    by (simp add: reaches_resolution_def classify_single_def quality_single_def
          cfg_bad_overlap_def cfg0_def read0_def)
  have r2: "\<not> reaches_resolution cfg_bad_overlap (Single read_unaligned)"
    by (simp add: reaches_resolution_def classify_single_def read_unaligned_def read0_def)
  have m: "multimapped_mode cfg_bad_multimap \<notin> {''none'', ''all''}"
    by (simp add: cfg_bad_multimap_def cfg0_def)
  have v1: "resolve_overlap cfg_bad_multimap idx0 [Inr iv_a] = Inr (Some {|''GeneA''|})"
    by (simp add: resolve_overlap_def cfg_bad_multimap_def cfg0_def idx0_def iv_a_def)
  have v2: "resolve_overlap cfg_bad_multimap idx0 [Inr iv_c] = Inl UnknownChrom"
    by (simp add: resolve_overlap_def cfg_bad_multimap_def cfg0_def idx0_def iv_c_def)
  have ci: "count_incr None None ''__no_feature'' [] = [(None, [(None, [(''__no_feature'', 1)])])]"
    by (simp add: count_incr_def counter_incr_def)
  have a: "scan cfg_bad_overlap idx0 sorted_list_of_fset [Single read_unaligned, Single read0] [] =
     Inl (SystemExit ''Illegal overlap mode.'')"
    using config_error_raised_at_first_use [where cfg = cfg_bad_overlap and rs = "[Single read_unaligned, Single read0]"
        and F = idx0 and list_of = sorted_list_of_fset and counts = "[]"] o r1 by simp
  have b: "\<exists>t. scan cfg_bad_overlap idx0 sorted_list_of_fset [Single read_unaligned] [] = Inr t"
    using config_error_raised_at_first_use [where cfg = cfg_bad_overlap and rs = "[Single read_unaligned]"
        and F = idx0 and list_of = sorted_list_of_fset and counts = "[]"] o r2 by simp
  have c: "resolve_and_count cfg_bad_multimap idx0 sorted_list_of_fset None None [Inr iv_a] [] =
     Inl (SystemExit ''Illegal multimap mode.'')"
    using config_error_raised_at_first_use [where cfg = cfg_bad_multimap and F = idx0 and ivs = "[Inr iv_a]"
        and s = "{|''GeneA''|}" and list_of = sorted_list_of_fset and cb = None and ub = None
        and counts = "[]"] m v1 by simp
  have d: "resolve_and_count cfg_bad_multimap idx0 sorted_list_of_fset None None [Inr iv_c] [] =
     Inr [(None, [(None, [(''__no_feature'', 1)])])]"
    using config_error_raised_at_first_use [where cfg = cfg_bad_multimap and F = idx0 and ivs = "[Inr iv_c]"
        and list_of = sorted_list_of_fset and cb = None and ub = None and counts = "[]"]
      m v2 ci by simp
  from o r1 r2 a b m v1 c v2 d show ?thesis by blast
qed

subsection \<open>C8: intervals on unknown chromosomes\<close>

text \<open>
  C8: let a record unit reach the overlap resolution, under one of the three overlap
  modes, with an interval sequence that holds an interval on a chromosome unknown to the
  index, the intervals before it having been extracted without an error. Then the
  iteration returns the table the classification left with one more \<^verbatim>\<open>__no_feature\<close> in the
  unit's bucket, whatever the earlier intervals overlap; the classification itself has
  left the table unchanged or added one \<^verbatim>\<open>__alignment_not_unique\<close>, so the
  \<^verbatim>\<open>__no_feature\<close> count of the bucket has grown by exactly one. No error is raised, and the
  scan goes on with the next unit.
\<close>

theorem unknown_chrom_counts_no_feature:
  assumes "overlap_mode cfg \<in> {''union'', ''intersection-strict'', ''intersection-nonempty''}"
    and "identify_barcodes cfg r = (cb, ub)"
    and "classify cfg cb ub r counts = Resolve counts' (map Inr pre @ Inr iv # post)"
    and "chrom iv \<notin> chrom_vectors F"
  shows "process_record cfg F list_of r counts = Inr (count_incr cb ub ''__no_feature'' counts') \<and>
     scan cfg F list_of (r # rs) counts =
       scan cfg F list_of rs (count_incr cb ub ''__no_feature'' counts') \<and>
     (counts' = counts \<or> counts' = count_incr cb ub ''__alignment_not_unique'' counts) \<and>
     count_of (bucket (count_incr cb ub ''__no_feature'' counts') cb ub) ''__no_feature'' =
       count_of (bucket counts cb ub) ''__no_feature'' + 1"
proof -
  from resolve_overlap_unknown [OF assms(1,4)] have
    "resolve_and_count cfg F list_of cb ub (map Inr pre @ Inr iv # post) counts' =
       Inr (count_incr cb ub ''__no_feature'' counts')"
    by (simp add: resolve_and_count_def)
  with assms(2,3) have p:
    "process_record cfg F list_of r counts = Inr (count_incr cb ub ''__no_feature'' counts')"
    by (simp add: process_record_def)
  from classify_resolve_counts [OF assms(3)] have c:
    "counts' = counts \<or> counts' = count_incr cb ub ''__alignment_not_unique'' counts" .
  then have "count_of (bucket counts' cb ub) ''__no_feature'' =
      count_of (bucket counts cb ub) ''__no_feature''"
    by (auto simp: bucket_count_incr count_of_incr)
  then have "count_of (bucket (count_incr cb ub ''__no_feature'' counts') cb ub) ''__no_feature'' =
       count_of (bucket counts cb ub) ''__no_feature'' + 1"
    by (simp add: bucket_count_incr count_of_incr)
  with p c show ?thesis by simp
qed

text \<open>
  C8, witness: a read whose first interval lies on \<^verbatim>\<open>chr1\<close> (feature \<^verbatim>\<open>GeneA\<close>) and whose
  second one lies on the unknown \<^verbatim>\<open>chrUn\<close> is counted as \<^verbatim>\<open>__no_feature\<close>, and the read
  after it is counted for \<^verbatim>\<open>GeneA\<close>.
\<close>

theorem unknown_chrom_counts_no_feature_witness:
  "overlap_mode cfg0 \<in> {''union'', ''intersection-strict'', ''intersection-nonempty''} \<and>
   identify_barcodes cfg0 (Single read_chr_un) = (Some ''X'', Some ''U'') \<and>
   classify cfg0 (Some ''X'') (Some ''U'') (Single read_chr_un) [] =
     Resolve [] (map Inr [iv_a] @ Inr iv_c # []) \<and>
   chrom iv_c \<notin> chrom_vectors idx0 \<and>
   process_record cfg0 idx0 sorted_list_of_fset (Single read_chr_un) [] =
     Inr [(Some ''X'', [(Some ''U'', [(''__no_feature'', 1)])])] \<and>
   scan cfg0 idx0 sorted_list_of_fset [Single read_chr_un, Single read0] [] =
     Inr [(Some ''X'', [(Some ''U'', [(''__no_feature'', 1), (''GeneA'', 1)])])]"
proof -
  have o: "overlap_mode cfg0 \<in> {''union'', ''intersection-strict'', ''intersection-nonempty''}"
    by (simp add: cfg0_def)
  have i: "identify_barcodes cfg0 (Single read_chr_un) = (Some ''X'', Some ''U'')"
    by (simp add: identify_barcodes_def cfg0_def read_chr_un_def read0_def)
  have k: "classify cfg0 (Some ''X'') (Some ''U'') (Single read_chr_un) [] =
     Resolve [] (map Inr [iv_a] @ Inr iv_c # [])"
    by (simp add: classify_single_def quality_single_def single_iv_seq_def plain_ivs_def
          match_ops_def com_def cfg0_def read_chr_un_def read0_def)
  have u: "chrom iv_c \<notin> chrom_vectors idx0"
    by (simp add: iv_c_def idx0_def)
  have ci: "count_incr (Some ''X'') (Some ''U'') ''__no_feature'' [] =
      [(Some ''X'', [(Some ''U'', [(''__no_feature'', 1)])])]"
    by (simp add: count_incr_def counter_incr_def)
  have s: "scan cfg0 idx0 sorted_list_of_fset [Single read0]
      [(Some ''X'', [(Some ''U'', [(''__no_feature'', 1)])])] =
     Inr [(Some ''X'', [(Some ''U'', [(''__no_feature'', 1), (''GeneA'', 1)])])]"
    by code_simp
  from unknown_chrom_counts_no_feature [OF o i k u, of sorted_list_of_fset "[Single read0]"] o i k u ci s
  show ?thesis by simp
qed

subsection \<open>C9: the interval sequence of a pair\<close>

text \<open>
  C9: the interval sequence of a paired-end unit is the contribution of the first mate
  followed by the contribution of the second mate. A mate that is absent or not aligned
  contributes nothing; otherwise it contributes the reference intervals of its CIGAR
  operations of type \<^verbatim>\<open>M\<close>, \<^verbatim>\<open>=\<close> or \<^verbatim>\<open>X\<close> with a size above 0, in order. The intervals of
  the first mate are passed through \<^verbatim>\<open>invert_strand\<close> exactly when \<^verbatim>\<open>stranded\<close> is
  \<^verbatim>\<open>reverse\<close>, those of the second mate exactly when it is not.
\<close>

theorem pair_iv_seq_by_mate:
  "pair_iv_seq cfg r0 r1 =
     spec_mate_intervals (stranded cfg = ''reverse'') r0 @
     spec_mate_intervals (stranded cfg \<noteq> ''reverse'') r1"
  by (cases r0; cases r1)
     (simp_all add: pair_iv_seq_def spec_mate_intervals_def plain_ivs_def inverted_ivs_def
        match_ops_def com_def Let_def)

text \<open>
  C9, witness: the second mate has a skip, a zero-size mismatch and two matching
  operations; with the default \<^verbatim>\<open>stranded = 'yes'\<close> its two matching intervals arrive
  inverted, with \<^verbatim>\<open>reverse\<close> those of the first mate do.
\<close>

theorem pair_iv_seq_by_mate_witness:
  "pair_iv_seq cfg0 (Some read0) (Some read_ops) =
     [Inr iv_a, Inr (iv_a\<lparr>strand := ''-''\<rparr>), Inr (iv_b\<lparr>strand := ''+''\<rparr>)] \<and>
   pair_iv_seq (cfg0\<lparr>stranded := ''reverse''\<rparr>) (Some read0) (Some read_ops) =
     [Inr (iv_a\<lparr>strand := ''-''\<rparr>), Inr iv_a, Inr iv_b] \<and>
   pair_iv_seq cfg0 (Some read_unaligned) None = []"
  using pair_iv_seq_by_mate [of cfg0 "Some read0" "Some read_ops"]
    pair_iv_seq_by_mate [of "cfg0\<lparr>stranded := ''reverse''\<rparr>" "Some read0" "Some read_ops"]
    pair_iv_seq_by_mate [of cfg0 "Some read_unaligned" None]
  by (simp add: spec_mate_intervals_def cfg0_def read0_def read_ops_def read_unaligned_def
        invert_strand_def iv_a_def iv_b_def)

subsection \<open>C10: sorting the cell barcodes\<close>

text \<open>
  C10: on the table of a scan, the collapse pass raises \<^verbatim>\<open>TypeError\<close> and returns nothing
  when the cell keys are \<^verbatim>\<open>None\<close> together with a string; otherwise it returns, and the
  list of cell barcodes it returns is the list of the table's cell keys in ascending order,
  each key once.
\<close>

theorem collapse_sorts_cell_barcodes:
  assumes "scan cfg F list_of rs [] = Inr counts"
  shows "(\<not> comparable_keys (map fst counts) \<longrightarrow> collapse counts = Inl TypeError) \<and>
     (comparable_keys (map fst counts) \<longrightarrow>
        (\<exists>res. collapse counts = Inr res \<and> cell_barcodes res = sort (map fst counts) \<and>
           sorted (cell_barcodes res) \<and> distinct (cell_barcodes res) \<and>
           set (cell_barcodes res) = set (map fst counts)))"
proof -
  from assms have wf: "wf_table counts" by (rule wf_scan_empty)
  have "collapse counts = Inl TypeError" if "\<not> comparable_keys (map fst counts)"
    using that by (simp add: collapse_def py_sorted_cases)
  moreover have "\<exists>res. collapse counts = Inr res \<and> cell_barcodes res = sort (map fst counts) \<and>
           sorted (cell_barcodes res) \<and> distinct (cell_barcodes res) \<and>
           set (cell_barcodes res) = set (map fst counts)"
    if "comparable_keys (map fst counts)"
  proof -
    from collapse_wf [OF wf that] obtain noumi where
      "collapse counts = Inr \<lparr>cell_barcodes = sort (map fst counts), collapsed = noumi\<rparr>"
      by blast
    moreover from wf have "distinct (sort (map fst counts))" by (simp add: wf_table_def)
    ultimately show ?thesis by simp
  qed
  ultimately show ?thesis by blast
qed

text \<open>
  C10, witness: a tagged read followed by an untagged read (the sort fails), and two reads
  of the cells \<^verbatim>\<open>X\<close> and \<^verbatim>\<open>A\<close> (the barcodes are returned as \<^verbatim>\<open>A\<close>, \<^verbatim>\<open>X\<close>).
\<close>

theorem collapse_sorts_cell_barcodes_witness:
  "scan cfg0 idx0 sorted_list_of_fset [Single read0, Single read_untagged] [] =
     Inr [(Some ''X'', [(Some ''U'', [(''GeneA'', 1)])]), (None, [(None, [(''GeneA'', 1)])])] \<and>
   \<not> comparable_keys (map fst
       [(Some ''X'', [(Some ''U'', [(''GeneA'', 1)])]), (None, [(None, [(''GeneA'', 1)])])]) \<and>
   collapse [(Some ''X'', [(Some ''U'', [(''GeneA'', 1)])]), (None, [(None, [(''GeneA'', 1)])])] =
     Inl TypeError \<and>
   scan cfg0 idx0 sorted_list_of_fset [Single read0, Single read_cell_a] [] =
     Inr [(Some ''X'', [(Some ''U'', [(''GeneA'', 1)])]), (Some ''A'', [(Some ''U'', [(''GeneA'', 1)])])] \<and>
   comparable_keys (map fst
       [(Some ''X'', [(Some ''U'', [(''GeneA'', 1)])]), (Some ''A'', [(Some ''U'', [(''GeneA'', 1)])])]) \<and>
   (\<exists>res. collapse
       [(Some ''X'', [(Some ''U'', [(''GeneA'', 1)])]), (Some ''A'', [(Some ''U'', [(''GeneA'', 1)])])] =
         Inr res \<and>
      cell_barcodes res = [Some ''A'', Some ''X''])"
proof -
  have s1: "scan cfg0 idx0 sorted_list_of_fset [Single read0, Single read_untagged] [] =
     Inr [(Some ''X'', [(Some ''U'', [(''GeneA'', 1)])]), (None, [(None, [(''GeneA'', 1)])])]"
    by code_simp
  have k1: "\<not> comparable_keys (map fst
       [(Some ''X'', [(Some ''U'', [(''GeneA'', 1)])]), (None, [(None, [(''GeneA'', 1)])])])"
    by (simp add: comparable_keys_def)
  have s2: "scan cfg0 idx0 sorted_list_of_fset [Single read0, Single read_cell_a] [] =
     Inr [(Some ''X'', [(Some ''U'', [(''GeneA'', 1)])]), (Some ''A'', [(Some ''U'', [(''GeneA'', 1)])])]"
    by code_simp
  have k2: "comparable_keys (map fst
       [(Some ''X'', [(Some ''U'', [(''GeneA'', 1)])]), (Some ''A'', [(Some ''U'', [(''GeneA'', 1)])])])"
    by (simp add: comparable_keys_def)
  have srt: "sort [Some ''X'', Some ''A''] = [Some ''A'', Some ''X'']"
    by code_simp
  from collapse_sorts_cell_barcodes [OF s1] k1 have e1:
    "collapse [(Some ''X'', [(Some ''U'', [(''GeneA'', 1)])]), (None, [(None, [(''GeneA'', 1)])])] =
       Inl TypeError" by blast
  from collapse_sorts_cell_barcodes [OF s2] k2 srt have e2: "\<exists>res. collapse
       [(Some ''X'', [(Some ''U'', [(''GeneA'', 1)])]), (Some ''A'', [(Some ''U'', [(''GeneA'', 1)])])] =
         Inr res \<and>
      cell_barcodes res = [Some ''A'', Some ''X'']" by auto
  from s1 k1 e1 s2 k2 e2 show ?thesis by blast
qed

end
